theory Spec2Isabelle
  imports
    Main
    "HOL-Library.AList"
    "HOL-Library.Char_ord"
    "HOL-Library.List_Lexorder"
    "HOL-Library.Product_Lexorder"
    "HOL-Library.Multiset"
begin

section \<open>The data model of \<open>detect_secrets/core/secrets_collection.py\<close>\<close>

subsection \<open>Findings\<close>

text \<open>
  A Python object keeps its attributes in a dictionary, and \<open>__eq__\<close> of the collection
  deletes entries of that dictionary (\<open>vars(secret).pop(...)\<close>). An attribute that can be
  deleted is therefore either missing or holds a value.
\<close>

datatype 'a attr = Missing | Has 'a

text \<open>
  Modelled from the spec: the class \<open>PotentialSecret\<close> is imported from
  \<open>potential_secret.py\<close>, which is not among the sources. The spec gives a Finding a file
  path, a type tag, a content-derived fingerprint, a line number (0 means not tracked),
  the tri-state \<open>isSecret\<close> (\<open>None\<close> is unknown), the boolean \<open>isVerified\<close> and the raw
  secret value (\<open>None\<close> for a Finding read back from a baseline). The fields carry the
  attribute names the collection's code reads, but for \<open>secret_filename\<close>, the attribute
  \<open>filename\<close>: the loops below have a variable of that name. The file path of a Finding
  is its own: it need not be the key of the bucket that holds it, since \<open>scan_file\<close> scans
  the path joined to \<open>root\<close> and stores under the path without it.
\<close>

record PotentialSecret =
  type :: string
  secret_filename :: string
  secret_hash :: string
  secret_value :: "string option attr"
  line_number :: "int attr"
  is_secret :: "bool option"
  is_verified :: bool

text \<open>
  Modelled from the spec: \<open>PotentialSecret.__eq__\<close> and \<open>__hash__\<close> are not among the
  sources. By the spec's data model two Findings are the same occurrence iff their
  identity key, the triple of file path, fingerprint and type tag, is the same; line
  number and audit fields take no part. Membership in a Python set or dict of Findings
  is membership of this key.
\<close>

definition identity_key :: "PotentialSecret \<Rightarrow> string \<times> string \<times> string" where
  "identity_key secret = (secret_filename secret, secret_hash secret, type secret)"

datatype exn =
    KeyError string
  | AttributeError string
  | ImportError string
  | NotImplementedError string
  | UnidiffParseError string
  | OtherError string

subsection \<open>Sets of Findings\<close>

text \<open>
  A \<open>Set[PotentialSecret]\<close> is a list of Findings that holds each identity key at most
  once; the order of the list stands for the order in which the runtime iterates the set.
\<close>

type_synonym bucket = "PotentialSecret list"

definition wf_bucket :: "bucket \<Rightarrow> bool" where
  "wf_bucket secrets = distinct (map identity_key secrets)"

definition contains :: "bucket \<Rightarrow> PotentialSecret \<Rightarrow> bool" where
  "contains secrets secret = (identity_key secret \<in> set (map identity_key secrets))"

definition lookup_secret :: "bucket \<Rightarrow> PotentialSecret \<Rightarrow> PotentialSecret option" where
  "lookup_secret secrets secret =
     find (\<lambda>existing. identity_key existing = identity_key secret) secrets"

text \<open>\<open>set.add\<close>: an element that is already in the set stays as it is.\<close>

definition set_add :: "bucket \<Rightarrow> PotentialSecret \<Rightarrow> bucket" where
  "set_add secrets secret = (if contains secrets secret then secrets else secrets @ [secret])"

text \<open>\<open>a - b\<close> on sets: the elements of \<open>a\<close> that are not in \<open>b\<close>.\<close>

definition set_minus :: "bucket \<Rightarrow> bucket \<Rightarrow> bucket" where
  "set_minus a b = filter (\<lambda>secret. \<not> contains b secret) a"

text \<open>
  An assignment to an attribute of the one object a lookup returns: the Finding of that
  identity key is replaced by its updated copy, in place.
\<close>

fun mutate :: "string \<times> string \<times> string \<Rightarrow> (PotentialSecret \<Rightarrow> PotentialSecret) \<Rightarrow> bucket \<Rightarrow> bucket" where
  "mutate k f [] = []"
| "mutate k f (secret # secrets) =
     (if identity_key secret = k then f secret # secrets else secret # mutate k f secrets)"

subsection \<open>Collections\<close>

text \<open>
  \<open>self.data\<close> is a dictionary from file path to set of Findings, here an association list
  in which the first entry of a key is the key's entry. Every read \<open>self[filename]\<close> in the
  operations below is of a key taken from \<open>files\<close>, so the \<open>defaultdict\<close> never inserts a
  key on a read there; \<open>getitem\<close> gives the empty set for an absent key, as the
  \<open>defaultdict\<close> does.
\<close>

record SecretsCollection =
  data :: "(string \<times> bucket) list"
  root :: string

definition SecretsCollection_init :: "SecretsCollection" where
  "SecretsCollection_init = \<lparr>data = [], root = ''''\<rparr>"

definition files :: "SecretsCollection \<Rightarrow> string set" where
  "files self = set (map fst (data self))"

text \<open>The order in which a loop \<open>for filename in self.files\<close> visits the key set.\<close>

definition file_list :: "SecretsCollection \<Rightarrow> string list" where
  "file_list self = remdups (map fst (data self))"

definition dict_get :: "(string \<times> bucket) list \<Rightarrow> string \<Rightarrow> bucket" where
  "dict_get d filename = (case map_of d filename of None \<Rightarrow> [] | Some secrets \<Rightarrow> secrets)"

definition getitem :: "SecretsCollection \<Rightarrow> string \<Rightarrow> bucket" where
  "getitem self filename = dict_get (data self) filename"

definition setitem :: "SecretsCollection \<Rightarrow> string \<Rightarrow> bucket \<Rightarrow> SecretsCollection" where
  "setitem self filename v = self\<lparr>data := AList.update filename v (data self)\<rparr>"

text \<open>
  A collection as the constructor and the scans build it: each file's set holds an
  identity key once, and every Finding has the attributes its constructor sets.
\<close>

definition intact :: "PotentialSecret \<Rightarrow> bool" where
  "intact secret = (secret_value secret \<noteq> Missing \<and> line_number secret \<noteq> Missing)"

definition wf :: "SecretsCollection \<Rightarrow> bool" where
  "wf self = list_all (\<lambda>entry. wf_bucket (snd entry) \<and> list_all intact (snd entry)) (data self)"

section \<open>The operations\<close>

subsection \<open>\<open>merge\<close>\<close>

text \<open>Lines 116 to 122: the two guarded assignments to the current Finding.\<close>

definition merge_secret :: "PotentialSecret \<Rightarrow> PotentialSecret \<Rightarrow> PotentialSecret" where
  "merge_secret old_secret current =
     (let c1 = (if is_secret current = None
                then current\<lparr>is_secret := is_secret old_secret\<rparr> else current)
      in if \<not> is_verified c1 then c1\<lparr>is_verified := is_verified old_secret\<rparr> else c1)"

text \<open>Lines 112 to 122: the loop over the old file's Findings.\<close>

fun merge_file :: "bucket \<Rightarrow> bucket \<Rightarrow> bucket" where
  "merge_file [] current = current"
| "merge_file (old_secret # rest) current =
     (if \<not> contains current old_secret then merge_file rest current
      else merge_file rest (mutate (identity_key old_secret) (merge_secret old_secret) current))"

text \<open>Lines 102 to 122: the loop over the old collection's files.\<close>

fun merge_files :: "string list \<Rightarrow> SecretsCollection \<Rightarrow> SecretsCollection \<Rightarrow> SecretsCollection" where
  "merge_files [] old_results self = self"
| "merge_files (filename # rest) old_results self =
     (if filename \<notin> files self then merge_files rest old_results self
      else merge_files rest old_results
             (setitem self filename
                (merge_file (getitem old_results filename) (getitem self filename))))"

definition merge :: "SecretsCollection \<Rightarrow> SecretsCollection \<Rightarrow> SecretsCollection" where
  "merge self old_results = merge_files (file_list old_results) old_results self"

subsection \<open>\<open>trim\<close>\<close>

text \<open>
  \<open>result[filename].add(existing_secret)\<close> on a \<open>defaultdict(set)\<close>: the key comes into
  being with the first Finding added under it.
\<close>

definition dict_add :: "(string \<times> bucket) list \<Rightarrow> string \<Rightarrow> PotentialSecret \<Rightarrow> (string \<times> bucket) list" where
  "dict_add d filename secret = AList.update filename (set_add (dict_get d filename) secret) d"

text \<open>
  Lines 174 to 184: the body of the loop over the rescanned file's Findings, for one of
  them. \<open>existing\<close> is \<open>self[filename]\<close>; a set holds an identity key once, so no Finding
  of it is looked up and updated twice, and each is read as it was at entry. Reading
  \<open>line_number\<close> from an object that has lost the attribute raises \<open>AttributeError\<close>.
\<close>

definition trim_secret ::
  "string \<Rightarrow> bucket \<Rightarrow> PotentialSecret \<Rightarrow> (string \<times> bucket) list \<Rightarrow> exn + (string \<times> bucket) list" where
  "trim_secret filename existing secret result =
     (case lookup_secret existing secret of
        None \<Rightarrow> Inr result
      | Some existing_secret \<Rightarrow>
          (case line_number existing_secret of
             Missing \<Rightarrow> Inl (AttributeError ''line_number'')
           | Has n \<Rightarrow>
               if n \<noteq> 0 then
                 (case line_number secret of
                    Missing \<Rightarrow> Inl (AttributeError ''line_number'')
                  | Has m \<Rightarrow> Inr (dict_add result filename (existing_secret\<lparr>line_number := Has m\<rparr>)))
               else Inr (dict_add result filename existing_secret)))"

text \<open>Lines 173 to 184: the loop over the rescanned file's Findings.\<close>

fun trim_secrets ::
  "string \<Rightarrow> bucket \<Rightarrow> bucket \<Rightarrow> (string \<times> bucket) list \<Rightarrow> exn + (string \<times> bucket) list" where
  "trim_secrets filename existing [] result = Inr result"
| "trim_secrets filename existing (secret # rest) result =
     (case trim_secret filename existing secret result of
        Inl e \<Rightarrow> Inl e
      | Inr result' \<Rightarrow> trim_secrets filename existing rest result')"

text \<open>Lines 167 to 184: the loop over the rescanned collection's files.\<close>

fun trim_scanned ::
  "string list \<Rightarrow> SecretsCollection \<Rightarrow> SecretsCollection \<Rightarrow> (string \<times> bucket) list
     \<Rightarrow> exn + (string \<times> bucket) list" where
  "trim_scanned [] self scanned_results result = Inr result"
| "trim_scanned (filename # rest) self scanned_results result =
     (if filename \<notin> files self then trim_scanned rest self scanned_results result
      else
        (case trim_secrets filename (getitem self filename) (getitem scanned_results filename) result of
           Inl e \<Rightarrow> Inl e
         | Inr result' \<Rightarrow> trim_scanned rest self scanned_results result'))"

text \<open>Lines 186 to 200: the loop over the collection's own files.\<close>

fun trim_rest ::
  "string list \<Rightarrow> SecretsCollection \<Rightarrow> string list \<Rightarrow> (string \<times> bucket) list
     \<Rightarrow> (string \<times> bucket) list" where
  "trim_rest [] self fileset result = result"
| "trim_rest (filename # rest) self fileset result =
     (if filename \<in> set (map fst result) then trim_rest rest self fileset result
      else if filename \<in> set fileset then trim_rest rest self fileset result
      else trim_rest rest self fileset (AList.update filename (getitem self filename) result))"

text \<open>
  \<open>trim\<close>, lines 150 to 202. \<open>path_exists\<close> is \<open>os.path.exists\<close>, the state of the file
  system at the call. The two optional arguments are \<open>None\<close> when omitted; \<open>not filelist\<close>
  holds of \<open>None\<close> and of the empty list.
\<close>

definition trim ::
  "(string \<Rightarrow> bool) \<Rightarrow> SecretsCollection \<Rightarrow> SecretsCollection option \<Rightarrow> string list option
     \<Rightarrow> exn + SecretsCollection" where
  "trim path_exists self scanned_results filelist =
     (let (scanned, flist) =
            (case scanned_results of
               None \<Rightarrow> (SecretsCollection_init,
                         Some (filter (\<lambda>filename. \<not> path_exists filename) (file_list self)))
             | Some s \<Rightarrow> (s, filelist));
          fileset = (case flist of None \<Rightarrow> [] | Some fl \<Rightarrow> fl)
      in case trim_scanned (file_list scanned) self scanned [] of
           Inl e \<Rightarrow> Inl e
         | Inr result \<Rightarrow> Inr (self\<lparr>data := trim_rest (file_list self) self fileset result\<rparr>))"

subsection \<open>\<open>__sub__\<close>\<close>

text \<open>Lines 297 to 301 and 303 to 307: the two loops that fill \<open>output\<close>.\<close>

fun sub_other :: "string list \<Rightarrow> SecretsCollection \<Rightarrow> SecretsCollection \<Rightarrow> SecretsCollection \<Rightarrow> SecretsCollection" where
  "sub_other [] self other output = output"
| "sub_other (filename # rest) self other output =
     (if filename \<notin> files self then sub_other rest self other output
      else sub_other rest self other
             (setitem output filename (set_minus (getitem self filename) (getitem other filename))))"

fun sub_self :: "string list \<Rightarrow> SecretsCollection \<Rightarrow> SecretsCollection \<Rightarrow> SecretsCollection \<Rightarrow> SecretsCollection" where
  "sub_self [] self other output = output"
| "sub_self (filename # rest) self other output =
     (if filename \<in> files other then sub_self rest self other output
      else sub_self rest self other (setitem output filename (getitem self filename)))"

text \<open>
  \<open>__sub__\<close> reads \<open>self\<close> and \<open>other\<close> and writes only to the fresh \<open>output\<close>, which it
  returns; the operands are not part of what the model returns because the code never
  assigns to them.
\<close>

definition sub :: "SecretsCollection \<Rightarrow> SecretsCollection \<Rightarrow> SecretsCollection" where
  "sub self other =
     sub_self (file_list self) self other
       (sub_other (file_list other) self other SecretsCollection_init)"

subsection \<open>\<open>__iter__\<close>\<close>



subsection \<open>\<open>__eq__\<close> and \<open>exactly_equals\<close>\<close>

text \<open>
  Lines 253 to 258: the dict comprehension keyed by \<open>(secret.secret_hash, secret.type)\<close>.
  A later Finding of a key replaces the value and keeps the key's place.
\<close>

definition mapping_key :: "PotentialSecret \<Rightarrow> string \<times> string" where
  "mapping_key secret = (secret_hash secret, type secret)"

definition dict_by_key :: "bucket \<Rightarrow> ((string \<times> string) \<times> PotentialSecret) list" where
  "dict_by_key secrets = fold (\<lambda>secret m. AList.update (mapping_key secret) secret m) secrets []"

text \<open>
  \<open>valuesA != valuesB\<close> compares two attribute dictionaries: the same attributes must be
  present and hold equal values.
\<close>

definition vars_eq :: "PotentialSecret \<Rightarrow> PotentialSecret \<Rightarrow> bool" where
  "vars_eq valuesA valuesB =
     (type valuesA = type valuesB \<and> secret_filename valuesA = secret_filename valuesB \<and>
      secret_hash valuesA = secret_hash valuesB \<and>
      secret_value valuesA = secret_value valuesB \<and> line_number valuesA = line_number valuesB \<and>
      is_secret valuesA = is_secret valuesB \<and> is_verified valuesA = is_verified valuesB)"

text \<open>
  Lines 270 to 282, the body of the loop for one pair. \<open>vars(secret)\<close> is the object's own
  attribute dictionary, so each \<open>pop\<close> deletes the attribute from the Finding, and a
  \<open>pop\<close> or a read of an attribute that is already gone raises \<open>KeyError\<close>. The result is
  the exception, or whether the two dictionaries are equal, with both Findings as the
  body leaves them. Python's \<open>or\<close> does not read the right line number when the left one
  is 0.
\<close>

definition pop_line_numbers ::
  "PotentialSecret \<Rightarrow> PotentialSecret \<Rightarrow> (exn + bool) \<times> PotentialSecret \<times> PotentialSecret" where
  "pop_line_numbers secretA secretB =
     (let a = secretA\<lparr>line_number := Missing\<rparr> in
      case line_number secretB of
        Missing \<Rightarrow> (Inl (KeyError ''line_number''), a, secretB)
      | Has _ \<Rightarrow> (let b = secretB\<lparr>line_number := Missing\<rparr> in (Inr (vars_eq a b), a, b)))"

definition compare_vars ::
  "PotentialSecret \<Rightarrow> PotentialSecret \<Rightarrow> (exn + bool) \<times> PotentialSecret \<times> PotentialSecret" where
  "compare_vars secretA secretB =
     (case secret_value secretA of
        Missing \<Rightarrow> (Inl (KeyError ''secret_value''), secretA, secretB)
      | Has _ \<Rightarrow>
          (let a = secretA\<lparr>secret_value := Missing\<rparr> in
           case secret_value secretB of
             Missing \<Rightarrow> (Inl (KeyError ''secret_value''), a, secretB)
           | Has _ \<Rightarrow>
               (let b = secretB\<lparr>secret_value := Missing\<rparr> in
                case line_number a of
                  Missing \<Rightarrow> (Inl (KeyError ''line_number''), a, b)
                | Has la \<Rightarrow>
                    if la = 0 then pop_line_numbers a b
                    else
                      (case line_number b of
                         Missing \<Rightarrow> (Inl (KeyError ''line_number''), a, b)
                       | Has lb \<Rightarrow>
                           if lb = 0 then pop_line_numbers a b
                           else (Inr (vars_eq a b), a, b)))))"

text \<open>
  Lines 267 to 282: the loop over \<open>self_mapping.values()\<close>. \<open>Inr True\<close> is the loop
  running to its end, \<open>Inr False\<close> is \<open>return False\<close>. The first list holds the Findings
  of \<open>self\<close> still to visit; the lists returned hold the Findings as the loop leaves them.
\<close>

fun strict_pairs ::
  "bucket \<Rightarrow> ((string \<times> string) \<times> PotentialSecret) list
     \<Rightarrow> (exn + bool) \<times> bucket \<times> ((string \<times> string) \<times> PotentialSecret) list" where
  "strict_pairs [] other_mapping = (Inr True, [], other_mapping)"
| "strict_pairs (secretA # rest) other_mapping =
     (case map_of other_mapping (mapping_key secretA) of
        None \<Rightarrow> (Inl (KeyError ''other_mapping''), secretA # rest, other_mapping)
      | Some secretB \<Rightarrow>
          (case compare_vars secretA secretB of
             (r, a, b) \<Rightarrow>
               (let other_mapping' = AList.update (mapping_key secretA) b other_mapping in
                if r = Inr True then
                  (case strict_pairs rest other_mapping' of
                     (r', rest', other_mapping'') \<Rightarrow> (r', a # rest', other_mapping''))
                else (r, a # rest, other_mapping'))))"

text \<open>
  Lines 252 to 282: the loop over the files. The Findings the inner loop has changed are
  the objects of the two collections, so what it leaves is what the two sets hold.
\<close>

fun eq_files ::
  "string list \<Rightarrow> SecretsCollection \<Rightarrow> SecretsCollection \<Rightarrow> bool
     \<Rightarrow> (exn + bool) \<times> SecretsCollection \<times> SecretsCollection" where
  "eq_files [] self other strict = (Inr True, self, other)"
| "eq_files (filename # rest) self other strict =
     (let self_mapping = dict_by_key (getitem self filename);
          other_mapping = dict_by_key (getitem other filename)
      in if set (map (\<lambda>entry. identity_key (snd entry)) self_mapping)
            \<noteq> set (map (\<lambda>entry. identity_key (snd entry)) other_mapping)
         then (Inr False, self, other)
         else if \<not> strict then eq_files rest self other strict
         else
           (case strict_pairs (map snd self_mapping) other_mapping of
              (r, secretsA, other_mapping') \<Rightarrow>
                (let self' = setitem self filename secretsA;
                     other' = setitem other filename (map snd other_mapping')
                 in if r = Inr True then eq_files rest self' other' strict
                    else (r, self', other'))))"

text \<open>
  \<open>__eq__(self, other, strict)\<close>, lines 246 to 284, for an \<open>other\<close> that is a collection
  and shares no Finding object with \<open>self\<close>: the exception or the value returned, and the
  two collections as the call leaves them.
\<close>

definition SecretsCollection_eq ::
  "SecretsCollection \<Rightarrow> SecretsCollection \<Rightarrow> bool
     \<Rightarrow> (exn + bool) \<times> SecretsCollection \<times> SecretsCollection" where
  "SecretsCollection_eq self other strict =
     (if files self \<noteq> files other then (Inr False, self, other)
      else eq_files (file_list self) self other strict)"

definition exactly_equals ::
  "SecretsCollection \<Rightarrow> SecretsCollection \<Rightarrow> (exn + bool) \<times> SecretsCollection \<times> SecretsCollection" where
  "exactly_equals self other = SecretsCollection_eq self other True"


subsection \<open>\<open>scan_diff\<close>\<close>

text \<open>
  Lines 84 and 85: \<open>self[secret.filename].add(secret)\<close> for each Finding the scanner yields.
  The read \<open>self[...]\<close> of a \<open>defaultdict\<close> brings an absent key into being.
\<close>

fun absorb :: "PotentialSecret list \<Rightarrow> SecretsCollection \<Rightarrow> SecretsCollection" where
  "absorb [] self = self"
| "absorb (secret # rest) self =
     absorb rest
       (setitem self (secret_filename secret)
          (set_add (getitem self (secret_filename secret)) secret))"

text \<open>
  \<open>scan_diff\<close>, lines 83 to 90. \<open>scan_scan_diff\<close> is the generator \<open>scan.scan_diff\<close> of the
  scanner module, which is not among the sources: for a diff text it gives the Findings
  it yields and the exception that ends it, if one does. The result is the exception
  that leaves \<open>scan_diff\<close>, if any, and the collection as the call leaves it. The message
  is the source's, without its backquotes.
\<close>

definition scan_diff ::
  "(string \<Rightarrow> PotentialSecret list \<times> exn option) \<Rightarrow> SecretsCollection \<Rightarrow> string
     \<Rightarrow> exn option \<times> SecretsCollection" where
  "scan_diff scan_scan_diff self diff =
     (case scan_scan_diff diff of
        (secrets, raised) \<Rightarrow>
          (case raised of
             None \<Rightarrow> None
           | Some (ImportError _) \<Rightarrow>
               Some (NotImplementedError
                 ''SecretsCollection.scan_diff requires unidiff to work. Try pip installing that package, and try again.'')
           | Some e \<Rightarrow> Some e,
           absorb secrets self))"

section \<open>Example collections\<close>

text \<open>
  The scenario of the spec: the baseline knows one Finding of \<open>a.py\<close> at line 3, audited;
  a fresh scan finds the same identity key at line 5, not yet audited, and a second
  Finding that is not tracked by line.
\<close>

definition baseline_secret :: PotentialSecret where
  "baseline_secret =
     \<lparr>type = ''AWSKeyDetector'', secret_filename = ''a.py'', secret_hash = ''H1'',
      secret_value = Has None, line_number = Has 3, is_secret = Some True, is_verified = True\<rparr>"

definition rescan_secret :: PotentialSecret where
  "rescan_secret =
     \<lparr>type = ''AWSKeyDetector'', secret_filename = ''a.py'', secret_hash = ''H1'',
      secret_value = Has (Some ''AKIA0000''), line_number = Has 5, is_secret = None,
      is_verified = False\<rparr>"

definition other_secret :: PotentialSecret where
  "other_secret =
     \<lparr>type = ''KeywordDetector'', secret_filename = ''a.py'', secret_hash = ''H2'',
      secret_value = Has (Some ''hunter2''), line_number = Has 0, is_secret = None,
      is_verified = False\<rparr>"

definition baseline :: SecretsCollection where
  "baseline = \<lparr>data = [(''a.py'', [baseline_secret])], root = []\<rparr>"

definition rescan :: SecretsCollection where
  "rescan = \<lparr>data = [(''a.py'', [rescan_secret])], root = []\<rparr>"

text \<open>Two files, and a collection that shares one Finding of the first.\<close>

definition two_files :: SecretsCollection where
  "two_files =
     \<lparr>data = [(''a.py'', [baseline_secret, other_secret]),
              (''b.py'', [other_secret\<lparr>secret_filename := ''b.py''\<rparr>])], root = []\<rparr>"

definition only_a :: SecretsCollection where
  "only_a =
     \<lparr>data = [(''a.py'', [rescan_secret]), (''c.py'', [other_secret\<lparr>secret_filename := ''c.py''\<rparr>])],
      root = []\<rparr>"

text \<open>
  A rescan of \<open>a.py\<close> that finds only another secret, and one that finds the same secret
  without tracking its line.
\<close>

definition rescan_other :: SecretsCollection where
  "rescan_other = \<lparr>data = [(''a.py'', [other_secret])], root = []\<rparr>"

definition rescan_untracked :: SecretsCollection where
  "rescan_untracked =
     \<lparr>data = [(''a.py'', [rescan_secret\<lparr>line_number := Has 0\<rparr>])], root = []\<rparr>"



text \<open>
  A scan under the root \<open>repo\<close>: the Finding has the joined path as its own and is stored
  under the path without the root.
\<close>

definition rooted_scan :: SecretsCollection where
  "rooted_scan =
     \<lparr>data = [(''a.py'', [rescan_secret\<lparr>secret_filename := ''repo/a.py''\<rparr>])], root = ''repo''\<rparr>"

section \<open>Properties\<close>

subsection \<open>Dictionaries and the key set\<close>

lemma set_file_list: "set (file_list self) = files self"
  by (simp add: file_list_def files_def)

lemma distinct_file_list: "distinct (file_list self)"
  by (simp add: file_list_def)

lemma getitem_setitem: "getitem (setitem self f v) g = (if g = f then v else getitem self g)"
  by (simp add: getitem_def setitem_def dict_get_def update_conv')

lemma files_setitem: "files (setitem self f v) = insert f (files self)"
  by (auto simp: files_def setitem_def update_keys)

lemma keys_setitem_present:
  "f \<in> files self \<Longrightarrow> map fst (data (setitem self f v)) = map fst (data self)"
  by (simp add: files_def setitem_def update_keys)

lemma root_setitem: "root (setitem self f v) = root self"
  by (simp add: setitem_def)

subsection \<open>\<open>merge\<close> leaves presence alone\<close>

lemma map_mutate: "(\<And>s. g (f s) = g s) \<Longrightarrow> map g (mutate k f secrets) = map g secrets"
  by (induction secrets) auto

lemma merge_secret_frame:
  "type (merge_secret old c) = type c" "secret_hash (merge_secret old c) = secret_hash c"
  "secret_filename (merge_secret old c) = secret_filename c"
  "secret_value (merge_secret old c) = secret_value c" "line_number (merge_secret old c) = line_number c"
  by (simp_all add: merge_secret_def Let_def)

lemma map_merge_file:
  "(\<And>old s. g (merge_secret old s) = g s) \<Longrightarrow> map g (merge_file olds current) = map g current"
  by (induction olds arbitrary: current) (simp_all add: map_mutate)

lemma merge_files_keys:
  "map fst (data (merge_files fs old self)) = map fst (data self)"
proof (induction fs arbitrary: self)
  case Nil
  show ?case by simp
next
  case (Cons f fs)
  show ?case
  proof (cases "f \<in> files self")
    case True
    then show ?thesis using Cons.IH keys_setitem_present[OF True] by simp
  next
    case False
    then show ?thesis using Cons.IH by simp
  qed
qed

lemma merge_files_root: "root (merge_files fs old self) = root self"
  by (induction fs arbitrary: self) (simp_all add: root_setitem)

lemma merge_files_frame:
  assumes g: "\<And>old s. g (merge_secret old s) = g s"
  shows "map g (getitem (merge_files fs old self) f) = map g (getitem self f)"
proof (induction fs arbitrary: self)
  case Nil
  show ?case by simp
next
  case (Cons x fs)
  show ?case
    using Cons.IH g by (simp add: getitem_setitem map_merge_file)
qed

text \<open>
  Claim C5. \<open>merge\<close> adds no Finding and no file: after \<open>merge(self, old_results)\<close> the
  dictionary of \<open>self\<close> has the keys it had, in the order it had them, and every file's set
  holds the Findings it held, identity key by identity key, each with the line number
  and the raw value it had. Only \<open>is_secret\<close> and \<open>is_verified\<close> of Findings that were
  already there can differ; a Finding or a file of \<open>old_results\<close> alone is nowhere in the
  result. The operation returns the updated \<open>self\<close> and no other collection.
\<close>

theorem merge_adds_nothing:
  "map fst (data (merge self old_results)) = map fst (data self) \<and>
   files (merge self old_results) = files self \<and>
   root (merge self old_results) = root self \<and>
   (\<forall>filename.
      map (\<lambda>secret. (identity_key secret, line_number secret, secret_value secret))
          (getitem (merge self old_results) filename)
      = map (\<lambda>secret. (identity_key secret, line_number secret, secret_value secret))
          (getitem self filename))"
proof -
  have k: "map fst (data (merge self old_results)) = map fst (data self)"
    by (simp add: merge_def merge_files_keys)
  have f: "files (merge self old_results) = files self"
    using k by (simp add: files_def)
  have r: "root (merge self old_results) = root self"
    by (simp add: merge_def merge_files_root)
  have g: "map (\<lambda>secret. (identity_key secret, line_number secret, secret_value secret))
          (getitem (merge self old_results) filename)
      = map (\<lambda>secret. (identity_key secret, line_number secret, secret_value secret))
          (getitem self filename)" for filename
    unfolding merge_def
    by (rule merge_files_frame) (simp add: identity_key_def merge_secret_frame)
  show ?thesis using k f r g by blast
qed

subsection \<open>\<open>scan_diff\<close> and its two failures\<close>

text \<open>
  Claim C9. \<open>scan_diff\<close> raises the diff parser's parse failure exactly when the scanner
  raises it, with the same payload: it is neither swallowed nor replaced. When the
  scanner's import of the diff parser fails, what leaves \<open>scan_diff\<close> is a
  \<open>NotImplementedError\<close>, which is never a parse failure; a \<open>NotImplementedError\<close> leaves
  \<open>scan_diff\<close> only for a failed import or for one the scanner raised itself. The call
  returns normally exactly when the scanner ends without an exception.
\<close>

theorem scan_diff_errors:
  "(fst (scan_diff scan_scan_diff self diff) = Some (UnidiffParseError m)
      \<longleftrightarrow> snd (scan_scan_diff diff) = Some (UnidiffParseError m)) \<and>
   ((\<exists>msg. fst (scan_diff scan_scan_diff self diff) = Some (NotImplementedError msg))
      \<longleftrightarrow> (\<exists>msg. snd (scan_scan_diff diff) = Some (ImportError msg)
             \<or> snd (scan_scan_diff diff) = Some (NotImplementedError msg))) \<and>
   (fst (scan_diff scan_scan_diff self diff) = None \<longleftrightarrow> snd (scan_scan_diff diff) = None)"
  by (cases "scan_scan_diff diff") (auto simp: scan_diff_def split: option.splits exn.splits)

subsection \<open>\<open>merge\<close> carries the audit state over\<close>

lemma lookup_secret_None: "lookup_secret secrets s = None \<longleftrightarrow> \<not> contains secrets s"
  by (induction secrets) (auto simp: lookup_secret_def contains_def)

lemma lookup_secret_key: "lookup_secret secrets s = Some e \<Longrightarrow> identity_key e = identity_key s \<and> e \<in> set secrets"
  by (auto simp: lookup_secret_def find_Some_iff)

lemma lookup_secret_cong: "identity_key s = identity_key t \<Longrightarrow> lookup_secret secrets s = lookup_secret secrets t"
  by (simp add: lookup_secret_def)

lemma lookup_secret_mem:
  "wf_bucket secrets \<Longrightarrow> e \<in> set secrets \<Longrightarrow> identity_key e = identity_key s \<Longrightarrow> lookup_secret secrets s = Some e"
proof (induction secrets)
  case Nil
  then show ?case by simp
next
  case (Cons x xs)
  then show ?case
    by (auto simp: lookup_secret_def wf_bucket_def image_iff)
qed

lemma contains_mutate:
  "(\<And>x. identity_key (f x) = identity_key x) \<Longrightarrow> contains (mutate k f secrets) s = contains secrets s"
  by (simp add: contains_def map_mutate)

lemma lookup_mutate:
  "(\<And>x. identity_key (f x) = identity_key x) \<Longrightarrow>
   lookup_secret (mutate k f secrets) s =
     (if identity_key s = k then map_option f (lookup_secret secrets s) else lookup_secret secrets s)"
  by (induction secrets) (auto simp: lookup_secret_def)

lemma identity_key_merge_secret: "identity_key (merge_secret old c) = identity_key c"
  by (simp add: identity_key_def merge_secret_frame)

lemma lookup_mutate_merge:
  "lookup_secret (mutate k (merge_secret old) secrets) s =
     (if identity_key s = k then map_option (merge_secret old) (lookup_secret secrets s)
      else lookup_secret secrets s)"
  by (rule lookup_mutate) (rule identity_key_merge_secret)

lemma lookup_merge_file:
  "wf_bucket olds \<Longrightarrow>
   lookup_secret (merge_file olds current) s =
     (case lookup_secret olds s of
        None \<Rightarrow> lookup_secret current s
      | Some old \<Rightarrow> map_option (merge_secret old) (lookup_secret current s))"
proof (induction olds arbitrary: current)
  case Nil
  show ?case by (simp add: lookup_secret_def)
next
  case (Cons old olds)
  from Cons.prems have d: "wf_bucket olds" and n: "identity_key old \<notin> set (map identity_key olds)"
    by (simp_all add: wf_bucket_def)
  show ?case
  proof (cases "identity_key s = identity_key old")
    case True
    have none: "lookup_secret olds s = None"
      using n True by (simp add: lookup_secret_None contains_def)
    have hd: "lookup_secret (old # olds) s = Some old"
      using True by (simp add: lookup_secret_def)
    show ?thesis
    proof (cases "contains current old")
      case False
      then have "lookup_secret current s = None"
        using True by (simp add: lookup_secret_None contains_def)
      then show ?thesis using False Cons.IH[OF d] none hd by simp
    next
      case c: True
      then show ?thesis
        using Cons.IH[OF d] none hd True
        by (simp add: lookup_mutate_merge)
    qed
  next
    case False
    then have tl: "lookup_secret (old # olds) s = lookup_secret olds s"
      by (auto simp: lookup_secret_def)
    show ?thesis
      using Cons.IH[OF d] tl False
      by (simp add: lookup_mutate_merge split: option.splits)
  qed
qed

lemma files_merge_files: "files (merge_files fs old self) = files self"
  by (simp add: files_def merge_files_keys)

lemma getitem_merge_files:
  "distinct fs \<Longrightarrow>
   getitem (merge_files fs old self) f =
     (if f \<in> set fs \<and> f \<in> files self then merge_file (getitem old f) (getitem self f)
      else getitem self f)"
proof (induction fs arbitrary: self)
  case Nil
  show ?case by simp
next
  case (Cons x fs)
  then have d: "distinct fs" and nx: "x \<notin> set fs" by simp_all
  show ?case
  proof (cases "x \<in> files self")
    case False
    then show ?thesis using Cons.IH[OF d] by auto
  next
    case True
    then have fs: "files (setitem self x v) = files self" for v
      by (auto simp: files_setitem)
    show ?thesis
      using True nx Cons.IH[OF d, of "setitem self x (merge_file (getitem old x) (getitem self x))"]
      by (auto simp: fs getitem_setitem)
  qed
qed

text \<open>
  Claim C2. Let \<open>current\<close> be a Finding of \<open>self\<close> and \<open>old_secret\<close> a Finding of
  \<open>old_results\<close> for the same file with the same identity key (file path, fingerprint and
  type tag, as \<open>PotentialSecret\<close> compares), each file's set holding an identity key
  once. After \<open>merge(self, old_results)\<close> the Finding of that key in \<open>self\<close>
  is verified iff \<open>current\<close> or \<open>old_secret\<close> was, so verification is never cleared; its
  \<open>is_secret\<close> is that of \<open>old_secret\<close> when \<open>current\<close> had none and that of \<open>current\<close>
  otherwise, so it is unknown only if it was unknown in both.
\<close>

theorem merge_audit:
  assumes "wf_bucket (getitem self filename)" and "wf_bucket (getitem old_results filename)"
    and "filename \<in> files self" and "filename \<in> files old_results"
    and "current \<in> set (getitem self filename)"
    and "old_secret \<in> set (getitem old_results filename)"
    and "identity_key old_secret = identity_key current"
  shows "\<exists>merged. lookup_secret (getitem (merge self old_results) filename) current = Some merged \<and>
           (is_verified merged \<longleftrightarrow> is_verified current \<or> is_verified old_secret) \<and>
           is_secret merged = (if is_secret current = None then is_secret old_secret else is_secret current) \<and>
           (is_secret merged = None \<longleftrightarrow> is_secret current = None \<and> is_secret old_secret = None)"
proof -
  have g: "getitem (merge self old_results) filename
             = merge_file (getitem old_results filename) (getitem self filename)"
    using assms(3,4) by (simp add: merge_def getitem_merge_files distinct_file_list set_file_list)
  have lo: "lookup_secret (getitem old_results filename) current = Some old_secret"
    using assms(2,6,7) by (rule lookup_secret_mem)
  have lc: "lookup_secret (getitem self filename) current = Some current"
    using assms(1,5) by (rule lookup_secret_mem) simp
  have "lookup_secret (getitem (merge self old_results) filename) current
          = Some (merge_secret old_secret current)"
    by (simp add: g lookup_merge_file[OF assms(2)] lo lc)
  then show ?thesis
    by (auto simp: merge_secret_def Let_def)
qed

theorem merge_audit_witness:
  "wf_bucket (getitem rescan ''a.py'') \<and> wf_bucket (getitem baseline ''a.py'') \<and>
   ''a.py'' \<in> files rescan \<and> ''a.py'' \<in> files baseline \<and>
   rescan_secret \<in> set (getitem rescan ''a.py'') \<and>
   baseline_secret \<in> set (getitem baseline ''a.py'') \<and>
   identity_key baseline_secret = identity_key rescan_secret \<and>
   (\<exists>merged. lookup_secret (getitem (merge rescan baseline) ''a.py'') rescan_secret = Some merged \<and>
      (is_verified merged \<longleftrightarrow> is_verified rescan_secret \<or> is_verified baseline_secret) \<and>
      is_secret merged =
        (if is_secret rescan_secret = None then is_secret baseline_secret else is_secret rescan_secret) \<and>
      (is_secret merged = None \<longleftrightarrow> is_secret rescan_secret = None \<and> is_secret baseline_secret = None))"
proof -
  have h1: "wf_bucket (getitem rescan ''a.py'')"
    by (simp add: getitem_def dict_get_def rescan_def wf_bucket_def)
  have h2: "wf_bucket (getitem baseline ''a.py'')"
    by (simp add: getitem_def dict_get_def baseline_def wf_bucket_def)
  have h3: "''a.py'' \<in> files rescan" by (simp add: files_def rescan_def)
  have h4: "''a.py'' \<in> files baseline" by (simp add: files_def baseline_def)
  have h5: "rescan_secret \<in> set (getitem rescan ''a.py'')"
    by (simp add: getitem_def dict_get_def rescan_def)
  have h6: "baseline_secret \<in> set (getitem baseline ''a.py'')"
    by (simp add: getitem_def dict_get_def baseline_def)
  have h7: "identity_key baseline_secret = identity_key rescan_secret"
    by (simp add: identity_key_def baseline_secret_def rescan_secret_def)
  show ?thesis
    using h1 h2 h3 h4 h5 h6 h7 merge_audit[OF h1 h2 h3 h4 h5 h6 h7] by blast
qed

subsection \<open>\<open>__sub__\<close> is set difference, file by file\<close>

lemma getitem_init: "getitem SecretsCollection_init f = []"
  by (simp add: getitem_def dict_get_def SecretsCollection_init_def)

lemma files_init: "files SecretsCollection_init = {}"
  by (simp add: files_def SecretsCollection_init_def)

lemma getitem_absent: "f \<notin> files self \<Longrightarrow> getitem self f = []"
proof -
  assume "f \<notin> files self"
  then have "map_of (data self) f = None"
    by (simp add: map_of_eq_None_iff files_def)
  then show ?thesis by (simp add: getitem_def dict_get_def)
qed

lemma getitem_sub_other:
  "getitem (sub_other fs self other out) f =
     (if f \<in> set fs \<and> f \<in> files self then set_minus (getitem self f) (getitem other f)
      else getitem out f)"
  by (induction fs arbitrary: out) (auto simp: getitem_setitem)

lemma files_sub_other:
  "files (sub_other fs self other out) = files out \<union> (set fs \<inter> files self)"
  by (induction fs arbitrary: out) (auto simp: files_setitem)

lemma getitem_sub_self:
  "getitem (sub_self fs self other out) f =
     (if f \<in> set fs \<and> f \<notin> files other then getitem self f else getitem out f)"
  by (induction fs arbitrary: out) (auto simp: getitem_setitem)

lemma files_sub_self:
  "files (sub_self fs self other out) = files out \<union> (set fs - files other)"
  by (induction fs arbitrary: out) (auto simp: files_setitem)

lemma getitem_sub:
  "getitem (sub self other) f =
     (if f \<in> files other then set_minus (getitem self f) (getitem other f) else getitem self f)"
  by (auto simp: sub_def getitem_sub_self getitem_sub_other set_file_list getitem_init
        getitem_absent set_minus_def)

lemma files_sub: "files (sub self other) = files self"
  by (auto simp: sub_def files_sub_self files_sub_other set_file_list files_init)

lemma set_minus_sound: "secret \<in> set (set_minus a b) \<Longrightarrow> \<not> contains b secret"
  by (simp add: set_minus_def)

text \<open>
  Claim C4. \<open>self - other\<close> is a collection of its own with the files of \<open>self\<close>. For
  every file of \<open>other\<close> its set is the set difference of the two sets for that file:
  each Finding in it is a Finding of \<open>self\<close>, and none has an identity key (file path,
  fingerprint and type tag) of \<open>other\<close>'s set. For every file of \<open>self\<close> that \<open>other\<close> does not have, its set is the set of
  \<open>self\<close>. \<open>sub\<close> returns the new collection only: the code assigns to nothing of \<open>self\<close>
  or \<open>other\<close>.
\<close>

theorem sub_is_set_difference:
  "files (sub self other) = files self \<and>
   (\<forall>filename \<in> files other.
      getitem (sub self other) filename = set_minus (getitem self filename) (getitem other filename) \<and>
      (\<forall>secret \<in> set (getitem (sub self other) filename).
         secret \<in> set (getitem self filename) \<and>
         identity_key secret \<notin> identity_key ` set (getitem other filename))) \<and>
   (\<forall>filename \<in> files self - files other.
      getitem (sub self other) filename = getitem self filename)"
  by (auto simp: getitem_sub files_sub set_minus_def contains_def)

theorem sub_is_set_difference_witness:
  "''a.py'' \<in> files only_a \<and>
   getitem (sub two_files only_a) ''a.py'' = set_minus (getitem two_files ''a.py'') (getitem only_a ''a.py'') \<and>
   getitem (sub two_files only_a) ''a.py'' = [other_secret] \<and>
   ''b.py'' \<in> files two_files - files only_a \<and>
   getitem (sub two_files only_a) ''b.py'' = getitem two_files ''b.py'' \<and>
   files (sub two_files only_a) = files two_files"
proof -
  have x: "''a.py'' \<in> files only_a" by (simp add: files_def only_a_def)
  have y: "''b.py'' \<in> files two_files - files only_a"
    by (simp add: files_def only_a_def two_files_def)
  have m: "set_minus (getitem two_files ''a.py'') (getitem only_a ''a.py'') = [other_secret]"
    by (simp add: set_minus_def contains_def getitem_def dict_get_def two_files_def only_a_def
          identity_key_def baseline_secret_def rescan_secret_def other_secret_def)
  show ?thesis
    using x y m sub_is_set_difference[of two_files only_a] by simp
qed

subsection \<open>\<open>trim\<close> with no arguments\<close>

lemma map_of_trim_rest:
  "map_of (trim_rest fs self fileset result) f =
     (if f \<in> set fs \<and> f \<notin> fst ` set result \<and> f \<notin> set fileset then Some (getitem self f)
      else map_of result f)"
proof (induction fs arbitrary: result)
  case Nil
  show ?case by simp
next
  case (Cons x fs)
  show ?case
    using Cons.IH[of result] Cons.IH[of "AList.update x (getitem self x) result"]
    by (auto simp: update_conv' dom_update map_of_eq_None_iff image_iff)
qed

lemma keys_trim_rest:
  "fst ` set (trim_rest fs self fileset result) = fst ` set result \<union> (set fs - set fileset)"
  by (induction fs arbitrary: result) (auto simp: dom_update)

lemma trim_default:
  "trim path_exists self None filelist =
     Inr (self\<lparr>data := trim_rest (file_list self) self
                          (filter (\<lambda>filename. \<not> path_exists filename) (file_list self)) []\<rparr>)"
  by (simp add: trim_def file_list_def SecretsCollection_init_def)

text \<open>
  Claim C6. \<open>trim()\<close> with no rescanned collection returns normally, whatever file list
  is passed, and leaves \<open>self\<close> with exactly those of its files that exist on disk, each
  with the set it had; a file that does not exist on disk is no longer a key and has no
  Finding.
\<close>

theorem trim_prunes_deleted_files:
  "\<exists>self'. trim path_exists self None filelist = Inr self' \<and>
      root self' = root self \<and>
      files self' = {filename \<in> files self. path_exists filename} \<and>
      (\<forall>filename. getitem self' filename = (if path_exists filename then getitem self filename else []))"
proof -
  let ?r = "trim_rest (file_list self) self (filter (\<lambda>filename. \<not> path_exists filename) (file_list self)) []"
  have f: "files (self\<lparr>data := ?r\<rparr>) = {filename \<in> files self. path_exists filename}"
    using keys_trim_rest[of "file_list self" self "filter (\<lambda>filename. \<not> path_exists filename) (file_list self)" "[]"]
    by (auto simp: files_def set_file_list)
  have g: "getitem (self\<lparr>data := ?r\<rparr>) filename = (if path_exists filename then getitem self filename else [])" for filename
    by (auto simp: getitem_def[of "self\<lparr>data := ?r\<rparr>"] dict_get_def map_of_trim_rest set_file_list getitem_absent)
  show ?thesis
    using f g by (simp add: trim_default)
qed

theorem trim_prunes_deleted_files_witness:
  "\<exists>self'. trim (\<lambda>filename. filename = ''b.py'') two_files None None = Inr self' \<and>
      files self' = {''b.py''} \<and> getitem self' ''b.py'' = [other_secret\<lparr>secret_filename := ''b.py''\<rparr>] \<and> getitem self' ''a.py'' = []"
proof -
  obtain self' where t: "trim (\<lambda>filename. filename = ''b.py'') two_files None None = Inr self'"
    and f: "files self' = {filename \<in> files two_files. filename = ''b.py''}"
    and g: "\<And>filename. getitem self' filename = (if filename = ''b.py'' then getitem two_files filename else [])"
    using trim_prunes_deleted_files[of "\<lambda>filename. filename = ''b.py''" two_files None] by blast
  have a: "{filename \<in> files two_files. filename = ''b.py''} = {''b.py''}"
    by (auto simp: files_def two_files_def)
  have b: "getitem two_files ''b.py'' = [other_secret\<lparr>secret_filename := ''b.py''\<rparr>]"
    by (simp add: getitem_def dict_get_def two_files_def)
  have "files self' = {''b.py''}" using f a by simp
  moreover have "getitem self' ''b.py'' = [other_secret\<lparr>secret_filename := ''b.py''\<rparr>]" using g[of "''b.py''"] b by simp
  moreover have "getitem self' ''a.py'' = []" using g[of "''a.py''"] by simp
  ultimately show ?thesis using t by blast
qed

subsection \<open>\<open>trim\<close> of a file whose Findings are all gone\<close>

text \<open>
  Claim C1, at an input where it fails. \<open>a.py\<close> is a file of both collections, and the
  one Finding \<open>self\<close> has for it is not in the rescanned set, so the intersection is empty
  and the claim leaves \<open>self\<close> no Finding for \<open>a.py\<close>. The loop of lines 167 to 184 never
  adds under \<open>a.py\<close>, so the \<open>defaultdict\<close> \<open>result\<close> never gets that key; the test of line
  189 then takes the file for one that was not rescanned, and with no file list line 200
  copies the old set back: \<open>trim\<close> returns \<open>self\<close> as it was.
\<close>

theorem trim_keeps_file_without_match:
  "\<not> contains (getitem rescan_other ''a.py'') baseline_secret \<and>
   ''a.py'' \<in> files baseline \<and> ''a.py'' \<in> files rescan_other \<and>
   trim (\<lambda>_. True) baseline (Some rescan_other) None = Inr baseline \<and>
   getitem baseline ''a.py'' = [baseline_secret]"
  by (simp add: trim_def baseline_def rescan_other_def file_list_def files_def getitem_def
      dict_get_def trim_secret_def lookup_secret_def contains_def identity_key_def
      baseline_secret_def other_secret_def)

subsection \<open>\<open>exactly_equals\<close> changes what it compares\<close>

text \<open>
  Claim C10, at an input where it fails. The two collections hold the same Finding of
  \<open>a.py\<close>, one of them without a tracked line. \<open>exactly_equals\<close> returns \<open>True\<close> and leaves
  both Findings without \<open>secret_value\<close> and without \<open>line_number\<close>: \<open>vars\<close> gives the
  object's own dictionary, and lines 271 to 279 \<open>pop\<close> from it. The same call on the two
  collections as the first call left them raises \<open>KeyError\<close> at line 271.
\<close>

theorem exactly_equals_deletes_attributes:
  "exactly_equals rescan rescan_untracked =
     (Inr True,
      \<lparr>data = [(''a.py'', [rescan_secret\<lparr>secret_value := Missing, line_number := Missing\<rparr>])], root = []\<rparr>,
      \<lparr>data = [(''a.py'', [rescan_secret\<lparr>secret_value := Missing, line_number := Missing\<rparr>])], root = []\<rparr>) \<and>
   exactly_equals
      \<lparr>data = [(''a.py'', [rescan_secret\<lparr>secret_value := Missing, line_number := Missing\<rparr>])], root = []\<rparr>
      \<lparr>data = [(''a.py'', [rescan_secret\<lparr>secret_value := Missing, line_number := Missing\<rparr>])], root = []\<rparr>
     = (Inl (KeyError ''secret_value''),
      \<lparr>data = [(''a.py'', [rescan_secret\<lparr>secret_value := Missing, line_number := Missing\<rparr>])], root = []\<rparr>,
      \<lparr>data = [(''a.py'', [rescan_secret\<lparr>secret_value := Missing, line_number := Missing\<rparr>])], root = []\<rparr>)"
  by (simp add: exactly_equals_def SecretsCollection_eq_def eq_files.simps files_def file_list_def
      rescan_def rescan_untracked_def getitem_def dict_get_def dict_by_key_def mapping_key_def
      identity_key_def
      rescan_secret_def compare_vars_def pop_line_numbers_def vars_eq_def setitem_def Let_def)

subsection \<open>\<open>trim\<close> against a rescan: the line numbers\<close>

lemma find_snoc:
  "find P (xs @ [x]) = (case find P xs of Some y \<Rightarrow> Some y | None \<Rightarrow> if P x then Some x else None)"
  by (induction xs) auto

lemma lookup_set_add:
  "lookup_secret (set_add secrets x) s =
     (case lookup_secret secrets s of
        Some y \<Rightarrow> Some y
      | None \<Rightarrow> if identity_key x = identity_key s then Some x else None)"
proof (cases "contains secrets x")
  case True
  then show ?thesis
    by (auto simp: set_add_def lookup_secret_None contains_def split: option.splits)
next
  case False
  then show ?thesis
    by (auto simp: set_add_def lookup_secret_def find_snoc contains_def find_None_iff
        split: option.splits)
qed

lemma dict_get_update: "dict_get (AList.update f v d) g = (if g = f then v else dict_get d g)"
  by (simp add: dict_get_def update_conv')

lemma dict_get_dict_add:
  "dict_get (dict_add d f x) g = (if g = f then set_add (dict_get d f) x else dict_get d g)"
  by (simp add: dict_add_def dict_get_update)

lemma map_of_dict_add: "g \<noteq> f \<Longrightarrow> map_of (dict_add d f x) g = map_of d g"
  by (simp add: dict_add_def update_conv')

lemma keys_dict_add: "fst ` set (dict_add d f x) = insert f (fst ` set d)"
  by (simp add: dict_add_def dom_update)

text \<open>One step of the loop, for Findings that have their line numbers.\<close>

lemma trim_secret_intact:
  assumes "list_all intact existing" and "intact secret"
  shows "trim_secret f existing secret result =
     Inr (case lookup_secret existing secret of
            None \<Rightarrow> result
          | Some e \<Rightarrow>
              dict_add result f
                (if line_number e = Has 0 then e else e\<lparr>line_number := line_number secret\<rparr>))"
proof (cases "lookup_secret existing secret")
  case None
  then show ?thesis by (simp add: trim_secret_def)
next
  case (Some e)
  then have "e \<in> set existing" by (simp add: lookup_secret_key)
  with assms(1) have "intact e" by (simp add: list_all_iff)
  then obtain n where n: "line_number e = Has n"
    by (cases "line_number e") (auto simp: intact_def)
  obtain m where m: "line_number secret = Has m"
    using assms(2) by (cases "line_number secret") (auto simp: intact_def)
  show ?thesis
    using Some n m by (simp add: trim_secret_def)
qed

lemma trim_secrets_returns:
  assumes "list_all intact existing" and "list_all intact scanned"
  shows "\<exists>r'. trim_secrets f existing scanned result = Inr r'"
  using assms(2)
proof (induction scanned arbitrary: result)
  case Nil
  show ?case by simp
next
  case (Cons x rest)
  then have ix: "intact x" and ir: "list_all intact rest" by simp_all
  show ?case
    using Cons.IH[OF ir] by (simp add: trim_secret_intact[OF assms(1) ix])
qed

lemma trim_secrets_result:
  assumes "list_all intact existing" and "list_all intact scanned"
    and "trim_secrets f existing scanned result = Inr r'"
  shows "g \<noteq> f \<Longrightarrow> map_of r' g = map_of result g"
    and "f \<in> fst ` set r' \<longleftrightarrow> f \<in> fst ` set result \<or> (\<exists>s\<in>set scanned. contains existing s)"
    and "lookup_secret (dict_get r' f) s =
        (case lookup_secret (dict_get result f) s of
           Some y \<Rightarrow> Some y
         | None \<Rightarrow>
             (case lookup_secret scanned s of
                None \<Rightarrow> None
              | Some sc \<Rightarrow>
                  map_option (\<lambda>e. if line_number e = Has 0 then e else e\<lparr>line_number := line_number sc\<rparr>)
                    (lookup_secret existing s)))"
proof -
  have "(g \<noteq> f \<longrightarrow> map_of r' g = map_of result g) \<and>
    (f \<in> fst ` set r' \<longleftrightarrow> f \<in> fst ` set result \<or> (\<exists>s\<in>set scanned. contains existing s)) \<and>
    lookup_secret (dict_get r' f) s =
        (case lookup_secret (dict_get result f) s of
           Some y \<Rightarrow> Some y
         | None \<Rightarrow>
             (case lookup_secret scanned s of
                None \<Rightarrow> None
              | Some sc \<Rightarrow>
                  map_option (\<lambda>e. if line_number e = Has 0 then e else e\<lparr>line_number := line_number sc\<rparr>)
                    (lookup_secret existing s)))"
    using assms(2,3)
  proof (induction scanned arbitrary: result)
    case Nil
    then show ?case by (simp add: lookup_secret_def split: option.splits)
  next
    case (Cons x rest)
    then have ix: "intact x" and ir: "list_all intact rest" by simp_all
    let ?r1 = "case lookup_secret existing x of
              None \<Rightarrow> result
            | Some e \<Rightarrow>
                dict_add result f
                  (if line_number e = Has 0 then e else e\<lparr>line_number := line_number x\<rparr>)"
    have step: "trim_secret f existing x result = Inr ?r1"
      using assms(1) ix by (rule trim_secret_intact)
    have t: "trim_secrets f existing rest ?r1 = Inr r'"
      using Cons.prems(2) step by simp
    note ih = Cons.IH[OF ir t]
    from ih have fr: "g \<noteq> f \<longrightarrow> map_of r' g = map_of ?r1 g" by (rule conjunct1)
    from ih have ks: "f \<in> fst ` set r' \<longleftrightarrow> f \<in> fst ` set ?r1 \<or> (\<exists>s\<in>set rest. contains existing s)"
      by (rule conjunct1[OF conjunct2])
    from ih have lk: "lookup_secret (dict_get r' f) s =
          (case lookup_secret (dict_get ?r1 f) s of
             Some y \<Rightarrow> Some y
           | None \<Rightarrow>
               (case lookup_secret rest s of
                  None \<Rightarrow> None
                | Some sc \<Rightarrow>
                    map_option (\<lambda>e. if line_number e = Has 0 then e else e\<lparr>line_number := line_number sc\<rparr>)
                      (lookup_secret existing s)))"
      by (rule conjunct2[OF conjunct2])
    show ?case
    proof (cases "lookup_secret existing x")
      case None
      then have nc: "\<not> contains existing x" by (simp add: lookup_secret_None)
      have same: "lookup_secret existing s = None" if "identity_key s = identity_key x"
        using None lookup_secret_cong[OF that, of existing] by simp
      have l: "lookup_secret (dict_get r' f) s =
          (case lookup_secret (dict_get result f) s of
             Some y \<Rightarrow> Some y
           | None \<Rightarrow>
               (case lookup_secret (x # rest) s of
                  None \<Rightarrow> None
                | Some sc \<Rightarrow>
                    map_option (\<lambda>e. if line_number e = Has 0 then e else e\<lparr>line_number := line_number sc\<rparr>)
                      (lookup_secret existing s)))"
      proof (cases "identity_key s = identity_key x")
        case True
        then show ?thesis
          using lk None same[OF True] by (simp add: lookup_secret_def split: option.splits)
      next
        case False
        then have "lookup_secret (x # rest) s = lookup_secret rest s"
          by (auto simp: lookup_secret_def)
        then show ?thesis using lk None by (simp split: option.splits)
      qed
      have fr': "g \<noteq> f \<longrightarrow> map_of r' g = map_of result g"
        using fr None by simp
      have ks': "f \<in> fst ` set r' \<longleftrightarrow> f \<in> fst ` set result \<or> (\<exists>s\<in>set (x # rest). contains existing s)"
        using ks None nc by simp
      show ?thesis
        using fr' ks' l by (intro conjI)
    next
      case (Some e)
      then have c: "contains existing x"
        using lookup_secret_None[of existing x] by simp
      have ke: "identity_key e = identity_key x"
        using Some by (simp add: lookup_secret_key)
      let ?e = "if line_number e = Has 0 then e else e\<lparr>line_number := line_number x\<rparr>"
      have r1: "?r1 = dict_add result f ?e" using Some by simp
      have ke': "identity_key ?e = identity_key x"
        using ke by (simp add: identity_key_def)
      have same: "lookup_secret existing s = Some e" if "identity_key s = identity_key x"
        using Some lookup_secret_cong[OF that, of existing] by simp
      have l: "lookup_secret (dict_get r' f) s =
          (case lookup_secret (dict_get result f) s of
             Some y \<Rightarrow> Some y
           | None \<Rightarrow>
               (case lookup_secret (x # rest) s of
                  None \<Rightarrow> None
                | Some sc \<Rightarrow>
                    map_option (\<lambda>e. if line_number e = Has 0 then e else e\<lparr>line_number := line_number sc\<rparr>)
                      (lookup_secret existing s)))"
      proof (cases "identity_key s = identity_key x")
        case True
        have hd: "lookup_secret (x # rest) s = Some x"
          using True by (simp add: lookup_secret_def)
        show ?thesis
          using lk True ke' same[OF True] hd
          by (simp add: r1 dict_get_dict_add lookup_set_add split: option.splits)
      next
        case False
        then have tl: "lookup_secret (x # rest) s = lookup_secret rest s"
          by (auto simp: lookup_secret_def)
        show ?thesis
          using lk False ke' tl
          by (simp add: r1 dict_get_dict_add lookup_set_add split: option.splits)
      qed
      have fr': "g \<noteq> f \<longrightarrow> map_of r' g = map_of result g"
        using fr by (simp add: r1 map_of_dict_add)
      have "f \<in> fst ` set r'"
        using ks by (simp add: r1 keys_dict_add)
      then have ks': "f \<in> fst ` set r' \<longleftrightarrow> f \<in> fst ` set result \<or> (\<exists>s\<in>set (x # rest). contains existing s)"
        using c by simp
      show ?thesis
        using fr' ks' l by (intro conjI)
    qed
  qed
  then show "g \<noteq> f \<Longrightarrow> map_of r' g = map_of result g"
    and "f \<in> fst ` set r' \<longleftrightarrow> f \<in> fst ` set result \<or> (\<exists>s\<in>set scanned. contains existing s)"
    and "lookup_secret (dict_get r' f) s =
        (case lookup_secret (dict_get result f) s of
           Some y \<Rightarrow> Some y
         | None \<Rightarrow>
             (case lookup_secret scanned s of
                None \<Rightarrow> None
              | Some sc \<Rightarrow>
                  map_option (\<lambda>e. if line_number e = Has 0 then e else e\<lparr>line_number := line_number sc\<rparr>)
                    (lookup_secret existing s)))"
    by simp_all
qed

lemma key_map_of: "f \<in> fst ` set d \<longleftrightarrow> map_of d f \<noteq> None"
  by (simp add: map_of_eq_None_iff)

lemma wf_getitem:
  assumes "wf self"
  shows "wf_bucket (getitem self g)" and "list_all intact (getitem self g)"
proof -
  have "wf_bucket (getitem self g) \<and> list_all intact (getitem self g)"
  proof (cases "map_of (data self) g")
    case None
    then show ?thesis by (simp add: getitem_def dict_get_def wf_bucket_def)
  next
    case (Some b)
    then have "(g, b) \<in> set (data self)" by (rule map_of_SomeD)
    with assms have "wf_bucket b \<and> list_all intact b"
      by (auto simp: wf_def list_all_iff)
    then show ?thesis using Some by (simp add: getitem_def dict_get_def)
  qed
  then show "wf_bucket (getitem self g)" and "list_all intact (getitem self g)" by simp_all
qed

text \<open>
  One round of the loop over the rescanned files, for a file of \<open>self\<close>: it is a run of
  the inner loop, which returns when the Findings have their line numbers.
\<close>

lemma trim_scanned_step:
  assumes iself: "\<And>g. list_all intact (getitem self g)"
    and isc: "\<And>g. list_all intact (getitem scanned g)"
    and x: "x \<in> files self"
  obtains r1 where "trim_secrets x (getitem self x) (getitem scanned x) result = Inr r1"
    and "trim_scanned (x # fs) self scanned result = trim_scanned fs self scanned r1"
proof -
  obtain r1 where r1: "trim_secrets x (getitem self x) (getitem scanned x) result = Inr r1"
    using trim_secrets_returns[OF iself isc] by blast
  then have "trim_scanned (x # fs) self scanned result = trim_scanned fs self scanned r1"
    using x by simp
  with r1 show ?thesis by (rule that)
qed

lemma trim_scanned_returns:
  assumes iself: "\<And>g. list_all intact (getitem self g)"
    and isc: "\<And>g. list_all intact (getitem scanned g)"
  shows "\<exists>r'. trim_scanned fs self scanned result = Inr r'"
proof (induction fs arbitrary: result)
  case Nil
  show ?case by simp
next
  case (Cons x fs)
  show ?case
  proof (cases "x \<in> files self")
    case False
    then show ?thesis using Cons.IH[of result] by simp
  next
    case True
    obtain r1 where "trim_scanned (x # fs) self scanned result = trim_scanned fs self scanned r1"
      using trim_scanned_step[OF iself isc True] by metis
    then show ?thesis using Cons.IH[of r1] by simp
  qed
qed

lemma trim_scanned_frame:
  assumes iself: "\<And>g. list_all intact (getitem self g)"
    and isc: "\<And>g. list_all intact (getitem scanned g)"
  shows "trim_scanned fs self scanned result = Inr r' \<Longrightarrow> f \<notin> set fs \<or> f \<notin> files self \<Longrightarrow>
         map_of r' f = map_of result f"
proof (induction fs arbitrary: result)
  case Nil
  then show ?case by simp
next
  case (Cons x fs)
  show ?case
  proof (cases "x \<in> files self")
    case False
    then have "trim_scanned fs self scanned result = Inr r'" using Cons.prems(1) by simp
    moreover have "f \<notin> set fs \<or> f \<notin> files self" using Cons.prems(2) by auto
    ultimately show ?thesis by (rule Cons.IH)
  next
    case True
    obtain r1 where r1: "trim_secrets x (getitem self x) (getitem scanned x) result = Inr r1"
      and t: "trim_scanned (x # fs) self scanned result = trim_scanned fs self scanned r1"
      using trim_scanned_step[OF iself isc True] by metis
    have nf: "f \<noteq> x" using Cons.prems(2) True by auto
    have a: "trim_scanned fs self scanned r1 = Inr r'" using Cons.prems(1) t by simp
    have b: "f \<notin> set fs \<or> f \<notin> files self" using Cons.prems(2) by auto
    have "map_of r' f = map_of r1 f" using a b by (rule Cons.IH)
    also have "map_of r1 f = map_of result f"
      using trim_secrets_result(1)[OF iself isc r1 nf] .
    finally show ?thesis .
  qed
qed

lemma trim_scanned_visit:
  assumes iself: "\<And>g. list_all intact (getitem self g)"
    and isc: "\<And>g. list_all intact (getitem scanned g)"
    and f: "f \<in> files self"
  shows "distinct fs \<Longrightarrow> f \<in> set fs \<Longrightarrow> trim_scanned fs self scanned result = Inr r' \<Longrightarrow>
     (f \<in> fst ` set r' \<longleftrightarrow>
        f \<in> fst ` set result \<or> (\<exists>s\<in>set (getitem scanned f). contains (getitem self f) s)) \<and>
     lookup_secret (dict_get r' f) s =
        (case lookup_secret (dict_get result f) s of
           Some y \<Rightarrow> Some y
         | None \<Rightarrow>
             (case lookup_secret (getitem scanned f) s of
                None \<Rightarrow> None
              | Some sc \<Rightarrow>
                  map_option (\<lambda>e. if line_number e = Has 0 then e else e\<lparr>line_number := line_number sc\<rparr>)
                    (lookup_secret (getitem self f) s)))"
proof (induction fs arbitrary: result)
  case Nil
  then show ?case by simp
next
  case (Cons x fs)
  then have d: "distinct fs" and nx: "x \<notin> set fs" by simp_all
  show ?case
  proof (cases "f = x")
    case True
    obtain r1 where r1: "trim_secrets f (getitem self f) (getitem scanned f) result = Inr r1"
      and t: "trim_scanned (f # fs) self scanned result = trim_scanned fs self scanned r1"
      using trim_scanned_step[OF iself isc f] by metis
    have a: "trim_scanned fs self scanned r1 = Inr r'" using Cons.prems(3) t True by simp
    have m: "map_of r' f = map_of r1 f"
      using trim_scanned_frame[OF iself isc a] nx True by simp
    then have g: "dict_get r' f = dict_get r1 f" by (simp add: dict_get_def)
    have k: "f \<in> fst ` set r' \<longleftrightarrow> f \<in> fst ` set r1" using m by (simp add: key_map_of)
    show ?thesis
      unfolding g k
      using trim_secrets_result(2)[OF iself isc r1] trim_secrets_result(3)[OF iself isc r1]
      by (intro conjI)
  next
    case False
    then have fs: "f \<in> set fs" using Cons.prems(2) by simp
    show ?thesis
    proof (cases "x \<in> files self")
      case nx': False
      then have "trim_scanned fs self scanned result = Inr r'" using Cons.prems(3) by simp
      with d fs show ?thesis by (rule Cons.IH)
    next
      case True
      obtain r1 where r1: "trim_secrets x (getitem self x) (getitem scanned x) result = Inr r1"
        and t: "trim_scanned (x # fs) self scanned result = trim_scanned fs self scanned r1"
        using trim_scanned_step[OF iself isc True] by metis
      have a: "trim_scanned fs self scanned r1 = Inr r'" using Cons.prems(3) t by simp
      have m: "map_of r1 f = map_of result f"
        using trim_secrets_result(1)[OF iself isc r1 False] .
      then have g: "dict_get r1 f = dict_get result f" by (simp add: dict_get_def)
      have k: "f \<in> fst ` set r1 \<longleftrightarrow> f \<in> fst ` set result" using m by (simp add: key_map_of)
      show ?thesis
        using Cons.IH[OF d fs a] unfolding g k .
    qed
  qed
qed

text \<open>
  Claim C7. Let \<open>self\<close> and the rescanned collection be as their constructors and
  scans build them, and let \<open>existing_secret\<close> be a Finding of \<open>self\<close> whose identity key
  (file path, fingerprint and type tag) is that of the Finding \<open>secret\<close> in the rescanned
  set for the same file. Then \<open>trim\<close> returns, and the Finding of that key it keeps is
  \<open>existing_secret\<close> itself when its line number was 0, and \<open>existing_secret\<close> with the line
  number of \<open>secret\<close> and every other field as it was when its line number was not 0.
\<close>

theorem trim_refreshes_tracked_line_numbers:
  assumes "wf self" and "wf scanned_results"
    and "filename \<in> files self" and "filename \<in> files scanned_results"
    and "existing_secret \<in> set (getitem self filename)"
    and "secret \<in> set (getitem scanned_results filename)"
    and "identity_key secret = identity_key existing_secret"
  shows "\<exists>self'. trim path_exists self (Some scanned_results) filelist = Inr self' \<and>
      lookup_secret (getitem self' filename) existing_secret =
        Some (if line_number existing_secret = Has 0 then existing_secret
              else existing_secret\<lparr>line_number := line_number secret\<rparr>)"
proof -
  let ?fileset = "case filelist of None \<Rightarrow> [] | Some fl \<Rightarrow> fl"
  note iself = wf_getitem(2)[OF assms(1)]
  note isc = wf_getitem(2)[OF assms(2)]
  have lsc: "lookup_secret (getitem scanned_results filename) existing_secret = Some secret"
    using wf_getitem(1)[OF assms(2)] assms(6,7) by (rule lookup_secret_mem)
  have lse: "lookup_secret (getitem self filename) existing_secret = Some existing_secret"
    using wf_getitem(1)[OF assms(1)] assms(5) by (rule lookup_secret_mem) simp
  have c: "contains (getitem self filename) secret"
    using assms(5,7) by (auto simp: contains_def)
  obtain r' where r': "trim_scanned (file_list scanned_results) self scanned_results [] = Inr r'"
    using trim_scanned_returns[OF iself isc] by blast
  have fl: "filename \<in> set (file_list scanned_results)"
    using assms(4) by (simp add: set_file_list)
  note v = trim_scanned_visit[OF iself isc assms(3) distinct_file_list fl r']
  have ks: "filename \<in> fst ` set r'"
    using v[THEN conjunct1] assms(6) c by blast
  have lk: "lookup_secret (dict_get r' filename) existing_secret =
        Some (if line_number existing_secret = Has 0 then existing_secret
              else existing_secret\<lparr>line_number := line_number secret\<rparr>)"
    using v[THEN conjunct2, of existing_secret] lsc lse
    by (simp add: dict_get_def lookup_secret_def)
  have "map_of (trim_rest (file_list self) self ?fileset r') filename = map_of r' filename"
    using ks by (simp add: map_of_trim_rest)
  then have "getitem (self\<lparr>data := trim_rest (file_list self) self ?fileset r'\<rparr>) filename
               = dict_get r' filename"
    by (simp add: getitem_def dict_get_def)
  then show ?thesis
    using r' lk by (simp add: trim_def)
qed

theorem trim_refreshes_tracked_line_numbers_witness:
  "wf baseline \<and> wf rescan \<and> ''a.py'' \<in> files baseline \<and> ''a.py'' \<in> files rescan \<and>
   baseline_secret \<in> set (getitem baseline ''a.py'') \<and>
   rescan_secret \<in> set (getitem rescan ''a.py'') \<and>
   identity_key rescan_secret = identity_key baseline_secret \<and>
   line_number baseline_secret \<noteq> Has 0 \<and>
   (\<exists>self'. trim (\<lambda>_. True) baseline (Some rescan) None = Inr self' \<and>
      lookup_secret (getitem self' ''a.py'') baseline_secret =
        Some (baseline_secret\<lparr>line_number := Has 5\<rparr>))"
proof -
  have h1: "wf baseline"
    by (simp add: wf_def baseline_def wf_bucket_def intact_def baseline_secret_def)
  have h2: "wf rescan"
    by (simp add: wf_def rescan_def wf_bucket_def intact_def rescan_secret_def)
  have h3: "''a.py'' \<in> files baseline" by (simp add: files_def baseline_def)
  have h4: "''a.py'' \<in> files rescan" by (simp add: files_def rescan_def)
  have h5: "baseline_secret \<in> set (getitem baseline ''a.py'')"
    by (simp add: getitem_def dict_get_def baseline_def)
  have h6: "rescan_secret \<in> set (getitem rescan ''a.py'')"
    by (simp add: getitem_def dict_get_def rescan_def)
  have h7: "identity_key rescan_secret = identity_key baseline_secret"
    by (simp add: identity_key_def baseline_secret_def rescan_secret_def)
  have l: "line_number baseline_secret \<noteq> Has 0" "line_number rescan_secret = Has 5"
    by (simp_all add: baseline_secret_def rescan_secret_def)
  show ?thesis
    using h1 h2 h3 h4 h5 h6 h7 l
      trim_refreshes_tracked_line_numbers[OF h1 h2 h3 h4 h5 h6 h7, of "\<lambda>_. True" None]
    by simp
qed

subsection \<open>\<open>__iter__\<close>: the order of the yields\<close>












subsection \<open>\<open>__eq__\<close>: what the two comparisons decide\<close>














subsection \<open>Findings scanned under a root\<close>

text \<open>
  The Finding of a scan under a root differs from the baseline's Finding of the same
  fingerprint and type tag in its file path, so the two do not match: \<open>merge\<close> copies no
  audit state into it, and the subtraction of the baseline keeps it.
\<close>

lemma merge_other_path: "merge rooted_scan baseline = rooted_scan"
  by (simp add: merge_def rooted_scan_def baseline_def file_list_def files_def getitem_def
      dict_get_def contains_def identity_key_def rescan_secret_def baseline_secret_def
      setitem_def)

lemma sub_other_path:
  "getitem (sub rooted_scan baseline) ''a.py'' = getitem rooted_scan ''a.py''"
  by (subst getitem_sub)
    (simp add: set_minus_def rooted_scan_def baseline_def files_def getitem_def
      dict_get_def contains_def identity_key_def rescan_secret_def baseline_secret_def)

end
